theory Spec2Isabelle
  imports Complex_Main "HOL-Library.Word"
begin

unbundle bit_operations_syntax

section \<open>The binary128 overlay\<close>

text \<open>
  \<open>ieee854_long_double_shape_type\<close> overlays a \<open>_Float128\<close> with four 32-bit words;
  \<open>w0\<close> is the most significant word (sign, 15 exponent bits, top 16 fraction bits).
  A \<open>_Float128\<close> value is identified with its bit pattern.
\<close>

record ieee854_long_double_shape_type =
  w0 :: "32 word"
  w1 :: "32 word"
  w2 :: "32 word"
  w3 :: "32 word"

type_synonym float128 = ieee854_long_double_shape_type

definition sign_bit :: "float128 \<Rightarrow> bool" where
  "sign_bit x = (w0 x AND 0x80000000 \<noteq> 0)"

definition biased_exp :: "float128 \<Rightarrow> int" where
  "biased_exp x = uint (drop_bit 16 (w0 x AND 0x7fffffff))"

definition fraction :: "float128 \<Rightarrow> int" where
  "fraction x = uint (w0 x AND 0xffff) * 2 ^ 96 + uint (w1 x) * 2 ^ 64
                 + uint (w2 x) * 2 ^ 32 + uint (w3 x)"

definition mk_float128 :: "bool \<Rightarrow> int \<Rightarrow> int \<Rightarrow> float128" where
  "mk_float128 s e f =
     \<lparr> w0 = word_of_int ((if s then 2 ^ 31 else 0) + e * 2 ^ 16 + f div 2 ^ 96),
       w1 = word_of_int (f div 2 ^ 64), w2 = word_of_int (f div 2 ^ 32),
       w3 = word_of_int f \<rparr>"

definition is_nan :: "float128 \<Rightarrow> bool" where
  "is_nan x = (biased_exp x = 0x7fff \<and> fraction x \<noteq> 0)"

definition is_inf :: "float128 \<Rightarrow> bool" where
  "is_inf x = (biased_exp x = 0x7fff \<and> fraction x = 0)"

definition is_zero :: "float128 \<Rightarrow> bool" where
  "is_zero x = (biased_exp x = 0 \<and> fraction x = 0)"

definition is_finite :: "float128 \<Rightarrow> bool" where
  "is_finite x = (biased_exp x < 0x7fff)"

text \<open>
  A finite value is \<open>\<plusminus> significand * 2 ^ exponent2\<close> with an integer significand:
  the hidden bit is present unless the exponent field is 0 (subnormals and zeros).
\<close>

definition significand :: "float128 \<Rightarrow> int" where
  "significand x = (if biased_exp x = 0 then fraction x else 2 ^ 112 + fraction x)"

definition exponent2 :: "float128 \<Rightarrow> int" where
  "exponent2 x = max (biased_exp x) 1 - 16495"

definition signed_significand :: "float128 \<Rightarrow> int" where
  "signed_significand x = (if sign_bit x then - significand x else significand x)"

definition valof :: "float128 \<Rightarrow> rat" where
  "valof x = of_int (signed_significand x) * 2 powi exponent2 x"

section \<open>Round to nearest, ties to even\<close>

text \<open>The number of bits of a positive integer.\<close>

function nbits :: "int \<Rightarrow> int" where
  "nbits n = (if n \<le> 0 then 0 else 1 + nbits (n div 2))"
  by pat_completeness auto

termination
  by (relation "measure nat") auto

declare nbits.simps [simp del]

definition rne_shift :: "int \<Rightarrow> nat \<Rightarrow> int" where
  "rne_shift n sh =
     (if sh = 0 then n
      else let q = n div 2 ^ sh; r = n mod 2 ^ sh; h = 2 ^ (sh - 1)
           in if h < r \<or> (r = h \<and> odd q) then q + 1 else q)"

definition infinity :: "bool \<Rightarrow> float128" where
  "infinity s = mk_float128 s 0x7fff 0"

definition pack :: "bool \<Rightarrow> int \<Rightarrow> int \<Rightarrow> float128" where
  "pack s q e =
     (if q < 2 ^ 112 then mk_float128 s 0 q
      else let q' = (if 2 ^ 113 \<le> q then q div 2 else q);
               be = (if 2 ^ 113 \<le> q then e + 1 else e) + 16495
           in if 0x7fff \<le> be then infinity s else mk_float128 s be (q' - 2 ^ 112))"

definition round_float128 :: "bool \<Rightarrow> int \<Rightarrow> int \<Rightarrow> float128" where
  "round_float128 s n e =
     (let sh = max (nbits n - 113) (- 16494 - e)
      in if sh \<le> 0 then pack s (n * 2 ^ nat (- sh)) (e + sh)
         else pack s (rne_shift n (nat sh)) (e + sh))"

text \<open>
  The nearest \<open>_Float128\<close> to the quotient \<open>a / b\<close> scaled by \<open>2 ^ e\<close> (\<open>0 < a\<close>, \<open>0 < b\<close>):
  the quotient is taken to more than 113 bits and a sticky bit records a remainder.
\<close>

definition round_quotient :: "bool \<Rightarrow> int \<Rightarrow> int \<Rightarrow> int \<Rightarrow> float128" where
  "round_quotient s a b e =
     (let k = nat (116 + nbits b);
          q = (a * 2 ^ k) div b; r = (a * 2 ^ k) mod b
      in round_float128 s (2 * q + (if r = 0 then 0 else 1)) (e - int k - 1))"

section \<open>Arithmetic of \<open>_Float128\<close>\<close>

definition quiet :: "float128 \<Rightarrow> float128" where
  "quiet x = x \<lparr> w0 := w0 x OR 0x8000 \<rparr>"

definition default_nan :: float128 where
  "default_nan = \<lparr> w0 = 0x7fff8000, w1 = 0, w2 = 0, w3 = 0 \<rparr>"

definition fneg :: "float128 \<Rightarrow> float128" where
  "fneg x = x \<lparr> w0 := w0 x XOR 0x80000000 \<rparr>"

definition signed_zero :: "bool \<Rightarrow> float128" where
  "signed_zero s = mk_float128 s 0 0"

text \<open>
  The sum of two finite values: a zero operand leaves the other operand as it is (two zeros
  give \<open>-0\<close> only when both are \<open>-0\<close>); otherwise the exact sum is rounded, and an exact
  zero sum is \<open>+0\<close>.
\<close>

definition add_finite :: "float128 \<Rightarrow> float128 \<Rightarrow> float128" where
  "add_finite a b =
     (if is_zero a \<and> is_zero b then signed_zero (sign_bit a \<and> sign_bit b)
      else if is_zero a then b
      else if is_zero b then a
      else let e = min (exponent2 a) (exponent2 b);
               s = signed_significand a * 2 ^ nat (exponent2 a - e)
                   + signed_significand b * 2 ^ nat (exponent2 b - e)
           in if s = 0 then signed_zero False
              else round_float128 (s < 0) \<bar>s\<bar> e)"

definition fadd :: "float128 \<Rightarrow> float128 \<Rightarrow> float128" where
  "fadd a b =
     (if is_nan a then quiet a
      else if is_nan b then quiet b
      else if is_inf a then (if is_inf b \<and> sign_bit a \<noteq> sign_bit b then default_nan else a)
      else if is_inf b then b
      else add_finite a b)"

definition fsub :: "float128 \<Rightarrow> float128 \<Rightarrow> float128" where
  "fsub a b =
     (if is_nan a then quiet a
      else if is_nan b then quiet b
      else fadd a (fneg b))"

definition fmul :: "float128 \<Rightarrow> float128 \<Rightarrow> float128" where
  "fmul a b =
     (let s = (sign_bit a \<noteq> sign_bit b)
      in if is_nan a then quiet a
         else if is_nan b then quiet b
         else if is_inf a \<or> is_inf b then
           (if is_zero a \<or> is_zero b then default_nan else infinity s)
         else if is_zero a \<or> is_zero b then signed_zero s
         else round_float128 s (significand a * significand b) (exponent2 a + exponent2 b))"

definition fdiv :: "float128 \<Rightarrow> float128 \<Rightarrow> float128" where
  "fdiv a b =
     (let s = (sign_bit a \<noteq> sign_bit b)
      in if is_nan a then quiet a
         else if is_nan b then quiet b
         else if is_inf a then (if is_inf b then default_nan else infinity s)
         else if is_inf b then signed_zero s
         else if is_zero b then (if is_zero a then default_nan else infinity s)
         else if is_zero a then signed_zero s
         else round_quotient s (significand a) (significand b) (exponent2 a - exponent2 b))"

definition float_of_int :: "int \<Rightarrow> float128" where
  "float_of_int i = round_float128 (i < 0) \<bar>i\<bar> 0"

text \<open>
  Comparisons: false when an operand is a NaN; otherwise the order of the values, which
  for this sign-and-magnitude encoding is the order of the signed bit patterns.
\<close>

definition order_key :: "float128 \<Rightarrow> int" where
  "order_key x =
     (let mag = biased_exp x * 2 ^ 112 + fraction x
      in if sign_bit x then - mag else mag)"

definition fle :: "float128 \<Rightarrow> float128 \<Rightarrow> bool" where
  "fle a b = (\<not> is_nan a \<and> \<not> is_nan b \<and> order_key a \<le> order_key b)"

definition flt :: "float128 \<Rightarrow> float128 \<Rightarrow> bool" where
  "flt a b = (\<not> is_nan a \<and> \<not> is_nan b \<and> order_key a < order_key b)"

definition feq :: "float128 \<Rightarrow> float128 \<Rightarrow> bool" where
  "feq a b = (\<not> is_nan a \<and> \<not> is_nan b \<and> order_key a = order_key b)"

text \<open>
  A decimal literal with digits \<open>d\<close> and \<open>k\<close> of them after the point (the exponent part
  counted in) denotes the nearest \<open>_Float128\<close> to \<open>d / 10 ^ k\<close>.
\<close>

definition decimal :: "int \<Rightarrow> nat \<Rightarrow> float128" where
  "decimal d k = (if d = 0 then signed_zero False else round_quotient False d (10 ^ k) 0)"

definition fge :: "float128 \<Rightarrow> float128 \<Rightarrow> bool" where
  "fge a b = fle b a"

section \<open>Constants of \<open>e_logl.c\<close>\<close>

definition l3 :: float128 where
  "l3 = decimal 3333333333333333333333333333333336096926 40"

definition l4 :: float128 where
  "l4 = fneg (decimal 2499999999999999999999999999486853077002 40)"

definition l5 :: float128 where
  "l5 = decimal 1999999999999999999999999998515277861905 40"

definition l6 :: float128 where
  "l6 = fneg (decimal 1666666666666666666666798448356171665678 40)"

definition l7 :: float128 where
  "l7 = decimal 1428571428571428571428808945895490721564 40"

definition l8 :: float128 where
  "l8 = fneg (decimal 1249999999999999987884655626377588149000 40)"

definition l9 :: float128 where
  "l9 = decimal 1111111111111111093947834982832456459186 40"

definition l10 :: float128 where
  "l10 = fneg (decimal 1000000000000532974938900317952530453248 40)"

definition l11 :: float128 where
  "l11 = decimal 9090909090915566247008015301349979892689 41"

definition l12 :: float128 where
  "l12 = fneg (decimal 8333333211818065121250921925397567745734 41)"

definition l13 :: float128 where
  "l13 = decimal 7692307559897661630807048686258659316091 41"

definition l14 :: float128 where
  "l14 = fneg (decimal 7144242754190814657241902218399056829264 41)"

definition l15 :: float128 where
  "l15 = decimal 6668057591071739754844678883223432347481 41"

definition ln2a :: float128 where
  "ln2a = decimal 693145751953125 15"

definition ln2b :: float128 where
  "ln2b = decimal 14286068203094172321214581765680755001344 46"

definition logtbl :: "float128 list" where
  "logtbl =
     [fneg (decimal 55345593589352099112142921677820359632418 42),
      fneg (decimal 52108257402767124761784665198737642086148 42),
      fneg (decimal 48991686870576856279407775480686721935120 42),
      fneg (decimal 45993270766361228596215288742353061431071 42),
      fneg (decimal 43110481649613269682442058976885699556950 42),
      fneg (decimal 40340872319076331310838085093194799765520 42),
      fneg (decimal 37682072451780927439219005993827431503510 42),
      fneg (decimal 35131785416234343803903228503274262719586 42),
      fneg (decimal 32687785249045246292687241862699949178831 42),
      fneg (decimal 30347913785027239068190798397055267411813 42),
      fneg (decimal 28110077931525797884641940838507561326298 42),
      fneg (decimal 25972247078357715036426583294246819637618 42),
      fneg (decimal 23932450635346084858612873953407168217307 42),
      fneg (decimal 21988775689981395152022535153795155900240 42),
      fneg (decimal 20139364778244501615441044267387667496733 42),
      fneg (decimal 18382413762093794819267536615342902718324 42),
      fneg (decimal 16716169807550022358923589720001638093023 42),
      fneg (decimal 15138929457710992616226033183958974965355 42),
      fneg (decimal 13649036795397472900424896523305726435029 42),
      fneg (decimal 12244881690473465543308397998034325468152 42),
      fneg (decimal 10924898127200937840689817557742469105693 42),
      fneg (decimal 96875626072830301572839422532631079809328 43),
      fneg (decimal 85313926245226231463436209313499745894157 43),
      fneg (decimal 74549452072765973384933565912143044991706 43),
      fneg (decimal 64568155251217050991200599386801665681310 43),
      fneg (decimal 55356355563671005131126851708522185605193 43),
      fneg (decimal 46900728132525199028885749289712348829878 43),
      fneg (decimal 39188291218610470766469347968659624282519 43),
      fneg (decimal 32206394539524058873423550293617843896540 43),
      fneg (decimal 25942708080877805657374888909297113032132 43),
      fneg (decimal 20385211375711716729239156839929281289086 43),
      fneg (decimal 15522183228760777967376942769773768850872 43),
      fneg (decimal 11342191863606077520036253234446621373191 43),
      fneg (decimal 78340854719967065861624024730268350459991 44),
      fneg (decimal 49869831458030115699628274852562992756174 44),
      fneg (decimal 27902661731604211834685052867305795169688 44),
      fneg (decimal 12335696813916860754951146082826952093496 44),
      fneg (decimal 30677461025892873184042490943581654591817 45),
      decimal 0 40,
      fneg (decimal 30359557945051052537099938863236321874198 45),
      fneg (decimal 12081346403474584914595395755316412213151 44),
      fneg (decimal 27044071846562177120083903771008342059094 44),
      fneg (decimal 47834133324631162897179240322783590830326 44),
      fneg (decimal 74363569786340080624467487620270965403695 44),
      fneg (decimal 10654639687057968333207323853366578860679 43),
      fneg (decimal 14429854811877171341298062134712230604279 43),
      fneg (decimal 18753781835651574193938679595797367137975 43),
      fneg (decimal 23618380914922506054347222273705859653658 43),
      fneg (decimal 29015787624124743013946600163375853631299 43),
      fneg (decimal 34938307889254087318399313316921940859043 43),
      fneg (decimal 41378413103128673800485306215154712148146 43),
      fneg (decimal 48328735414488877044289435125365629849599 43),
      fneg (decimal 55782063183564351739381962360253116934243 43),
      fneg (decimal 63731336597098858051938306767880719015261 43),
      fneg (decimal 72169643436165454612058905294782949315193 43),
      fneg (decimal 81090214990427641365934846191367315083867 43),
      fneg (decimal 90486422112807274112838713105168375482480 43),
      fneg (decimal 10035177140880864314674126398350812606841 42),
      fneg (decimal 11067990155502102718064936259435676477423 42),
      fneg (decimal 12146457974158024928196575103115488672416 42),
      fneg (decimal 13269969823361415906628825374158424754308 42),
      fneg (decimal 14437927104692837124388550722759686270765 42),
      fneg (decimal 15649743073340777659901053944852735064621 42),
      fneg (decimal 16904842527181702880599758489058031645317 42),
      fneg (decimal 18202661505988007336096407340750378994209 42),
      fneg (decimal 19542647000370545390701192438691126552961 42),
      fneg (decimal 20924256670080119637427928803038530924742 42),
      fneg (decimal 22346958571309108496179613803760727786257 42),
      fneg (decimal 23810230892650362330447187267648486279460 42),
      fneg (decimal 25313561699385640380910474255652501521033 42),
      fneg (decimal 26856448685790244233704909690165496625399 42),
      fneg (decimal 28438398935154170008519274953860128449036 42),
      fneg (decimal 30058928687233090922411781058956589863039 42),
      fneg (decimal 31717563112854831855692484086486099896614 42),
      fneg (decimal 33413836095418743219397234253475252001090 42),
      fneg (decimal 35147290019036555862676702093393332533702 42),
      fneg (decimal 36917475563073933027920505457688955423688 42),
      fneg (decimal 38723951502862058660874073462456610731178 42),
      fneg (decimal 40566284516358241168330505467000838017425 42),
      fneg (decimal 42444048996543693813649967076598766917965 42),
      fneg (decimal 44356826869355401653098777649745233339196 42),
      fneg (decimal 46304207416957323121106944474331029996141 42),
      fneg (decimal 48285787106164123613318093945035804818364 42),
      fneg (decimal 50301169421838218987124461766244507342648 42),
      fneg (decimal 52349964705088137924875459464622098310997 42),
      fneg (decimal 54431789996103111613753440311680967840214 42),
      fneg (decimal 56546268881465384189752786409400404404794 42),
      fneg (decimal 58693031345788023909329239565012647817664 42),
      fneg (decimal 60871713627532018185577188079210189048340 42),
      fneg (decimal 63081958078862169742820420185833800925568 42),
      fneg (decimal 65323413029406789694910800219643791556918 42),
      fneg (decimal 67595732653791419081537811574227049288168 42)]"

definition ZERO :: float128 where
  "ZERO = logtbl ! 38"

section \<open>\<open>__frexpl\<close>\<close>

definition two114 :: float128 where
  "two114 = \<lparr> w0 = 0x40710000, w1 = 0, w2 = 0, w3 = 0 \<rparr>"

text \<open>
  Modelled from the spec: \<open>__frexpl\<close> is called by \<open>__ieee754_logl\<close> but is not under
  \<open>src/\<close>. It is the standard exponent/significand split of the C library: for a finite
  nonzero \<open>x\<close> it returns \<open>u\<close> with \<open>0.5 \<le> |u| < 1\<close> and stores \<open>e\<close> with \<open>x = u * 2 ^ e\<close>,
  by replacing the exponent field of \<open>x\<close> with \<open>0x3ffe\<close>; a subnormal \<open>x\<close> is first scaled by
  \<open>2 ^ 114\<close>. Zeros, infinities and NaNs are returned as \<open>x + x\<close> with \<open>e = 0\<close>.
\<close>

definition frexpl :: "float128 \<Rightarrow> float128 \<times> int" where
  "frexpl x =
     (if 0x7fff \<le> biased_exp x \<or> is_zero x then (fadd x x, 0)
      else let y = (if biased_exp x = 0 then fmul x two114 else x);
               e0 = (if biased_exp x = 0 then - 114 else 0)
           in (y \<lparr> w0 := (w0 y AND 0x8000ffff) OR 0x3ffe0000 \<rparr>,
               e0 + (biased_exp y - 16382)))"

section \<open>\<open>__ieee754_logl\<close>\<close>

text \<open>Lines 195 to 214: the IEEE special cases, each returning at once.\<close>

definition special_case :: "float128 \<Rightarrow> float128 option" where
  "special_case x =
     (let m = w0 x;
          k = m AND 0x7fffffff
      in if (k OR w1 x OR w2 x OR w3 x) = 0 then Some (fdiv (fneg (decimal 5 1)) ZERO)
         else if m AND 0x80000000 \<noteq> 0 then Some (fdiv (fsub x x) ZERO)
         else if 0x7fff0000 \<le> sint k then Some (fadd x x)
         else None)"

text \<open>
  Lines 218 to 241: the table index \<open>k\<close>, the grid point \<open>t\<close>, and the realigned \<open>u\<close> and
  \<open>e\<close>, from the result \<open>(u, e)\<close> of \<open>__frexpl\<close>. The exponent \<open>e\<close> is a C \<open>int\<close> that stays
  within \<open>\<plusminus>16500\<close>; it is modelled as an integer.
\<close>

record reduction_state =
  rs_u :: float128
  rs_t :: float128
  rs_k :: "32 word"
  rs_e :: int

definition table_index :: "float128 \<Rightarrow> int \<Rightarrow> reduction_state" where
  "table_index u e =
     (let m = (w0 u AND 0xffff) OR 0x10000
      in if m < 0x16800 then
           let k = drop_bit 9 (m - 0xff00)
           in \<lparr> rs_u = u \<lparr> w0 := w0 u + 0x10000 \<rparr>,
                rs_t = \<lparr> w0 = 0x3fff0000 + push_bit 9 k, w1 = 0, w2 = 0, w3 = 0 \<rparr>,
                rs_k = k + 64,
                rs_e = e - 1 \<rparr>
         else
           let k = drop_bit 10 (m - 0xfe00)
           in \<lparr> rs_u = u,
                rs_t = \<lparr> w0 = 0x3ffe0000 + push_bit 10 k, w1 = 0, w2 = 0, w3 = 0 \<rparr>,
                rs_k = k,
                rs_e = e \<rparr>)"

text \<open>
  Lines 216 to 259: range reduction. It either returns (the input is exactly 1) or leaves
  the residual \<open>z\<close>, the exponent \<open>e\<close>, the index \<open>k\<close> and the grid point \<open>t\<close>.
\<close>

datatype reduced =
    Return float128
  | Reduced (red_z: float128) (red_e: int) (red_k: "32 word") (red_t: float128)

definition range_reduce :: "float128 \<Rightarrow> reduced" where
  "range_reduce x =
     (let (u, e) = frexpl x;
          st = table_index u e
      in if fle x (decimal 10078125 7) \<and> fge x (decimal 9921875 7) then
           (if feq x (float_of_int 1) then Return (float_of_int 0)
            else Reduced (fsub x (float_of_int 1)) 0 64 (float_of_int 1))
         else Reduced (fdiv (fsub (rs_u st) (rs_t st)) (rs_t st)) (rs_e st) (rs_k st) (rs_t st))"

text \<open>
  The read \<open>logtbl[i]\<close>: outside the 92 entries the behaviour of the C program is undefined,
  which is \<open>None\<close> here.
\<close>

definition logtbl_read :: "int \<Rightarrow> float128 option" where
  "logtbl_read i = (if 0 \<le> i \<and> i < 92 then Some (logtbl ! nat i) else None)"

text \<open>Lines 260 to 281: the series in \<open>z\<close> and the accumulation of the result.\<close>

definition series :: "float128 \<Rightarrow> float128" where
  "series z =
     (let w = fmul z z;
          p = fmul l15 z;
          p = fmul (fadd p l14) z;
          p = fmul (fadd p l13) z;
          p = fmul (fadd p l12) z;
          p = fmul (fadd p l11) z;
          p = fmul (fadd p l10) z;
          p = fmul (fadd p l9) z;
          p = fmul (fadd p l8) z;
          p = fmul (fadd p l7) z;
          p = fmul (fadd p l6) z;
          p = fmul (fadd p l5) z;
          p = fmul (fadd p l4) z;
          p = fmul (fadd p l3) z
      in fmul p w)"

definition accumulate :: "float128 \<Rightarrow> int \<Rightarrow> 32 word \<Rightarrow> float128 \<Rightarrow> float128 option" where
  "accumulate z e k t =
     (let w = fmul z z;
          y = series z;
          y = fsub y (fmul (decimal 5 1) w);
          y = fadd y (fmul (float_of_int e) ln2b);
          y = fadd y z
      in case logtbl_read (sint (k - 26)) of
           None \<Rightarrow> None
         | Some c \<Rightarrow>
             let y = fadd y c;
                 y = fadd y (fsub t (float_of_int 1));
                 y = fadd y (fmul (float_of_int e) ln2a)
             in Some y)"

definition ieee754_logl :: "float128 \<Rightarrow> float128 option" where
  "ieee754_logl x =
     (case special_case x of
        Some r \<Rightarrow> Some r
      | None \<Rightarrow>
          (case range_reduce x of
             Return r \<Rightarrow> Some r
           | Reduced z e k t \<Rightarrow> accumulate z e k t))"

section \<open>Named values\<close>

definition pos_zero :: float128 where
  "pos_zero = \<lparr> w0 = 0, w1 = 0, w2 = 0, w3 = 0 \<rparr>"

definition one :: float128 where
  "one = \<lparr> w0 = 0x3fff0000, w1 = 0, w2 = 0, w3 = 0 \<rparr>"

definition neg_infinity :: float128 where
  "neg_infinity = \<lparr> w0 = 0xffff0000, w1 = 0, w2 = 0, w3 = 0 \<rparr>"

section \<open>The accumulation as the specification words it\<close>

text \<open>
  The specification's term order: \<open>z\<^sup>3 P(z)\<close> with \<open>P\<close> evaluated by Horner's scheme over
  the 13 coefficients, high degree first; then \<open>- 0.5 z\<^sup>2\<close>, \<open>+ e ln2b\<close>, \<open>+ z\<close>, the table
  entry \<open>c\<close>, \<open>+ (t - 1)\<close> and last \<open>+ e ln2a\<close>.
\<close>

definition coefficients :: "float128 list" where
  "coefficients = [l15, l14, l13, l12, l11, l10, l9, l8, l7, l6, l5, l4, l3]"

definition horner :: "float128 list \<Rightarrow> float128 \<Rightarrow> float128" where
  "horner cs z = foldl (\<lambda>p c. fadd (fmul p z) c) (hd cs) (tl cs)"

definition spec_accumulate :: "float128 \<Rightarrow> int \<Rightarrow> float128 \<Rightarrow> float128 \<Rightarrow> float128" where
  "spec_accumulate z e c t =
     (let y = fmul (fmul (horner coefficients z) z) (fmul z z);
          y = fsub y (fmul (decimal 5 1) (fmul z z));
          y = fadd y (fmul (float_of_int e) ln2b);
          y = fadd y z;
          y = fadd y c;
          y = fadd y (fsub t (float_of_int 1));
          y = fadd y (fmul (float_of_int e) ln2a)
      in y)"

section \<open>Bit fields\<close>

lemma uint_low16: "uint (w AND 0xffff :: 32 word) = uint w mod 2 ^ 16"
proof -
  have "(0xffff::32 word) = mask 16" by (simp add: mask_eq_exp_minus_1)
  then have "w AND 0xffff = take_bit 16 w" by (simp only: take_bit_eq_mask)
  then have "uint (w AND 0xffff) = take_bit 16 (uint w)" by (simp only: unsigned_take_bit_eq)
  then show ?thesis by (simp only: take_bit_eq_mod)
qed

lemma uint_low31: "uint (w AND 0x7fffffff :: 32 word) = uint w mod 2 ^ 31"
proof -
  have "(0x7fffffff::32 word) = mask 31" by (simp add: mask_eq_exp_minus_1)
  then have "w AND 0x7fffffff = take_bit 31 w" by (simp only: take_bit_eq_mask)
  then have "uint (w AND 0x7fffffff) = take_bit 31 (uint w)" by (simp only: unsigned_take_bit_eq)
  then show ?thesis by (simp only: take_bit_eq_mod)
qed

lemma uint_drop16: "uint (drop_bit 16 (v :: 32 word)) = uint v div 2 ^ 16"
proof -
  have "take_bit LENGTH(32) (uint v) = uint v"
    using uint_lt2p [of v] by (simp add: take_bit_eq_mod)
  then have "uint (drop_bit 16 v) = drop_bit 16 (uint v)"
    by (simp only: unsigned_drop_bit_eq)
  then show ?thesis by (simp only: drop_bit_eq_div)
qed

lemma sign_test: "((w::32 word) AND 0x80000000 \<noteq> 0) = (2 ^ 31 \<le> uint w)"
proof -
  have "(w AND 2 ^ 31 = 0) = (\<not> bit w 31)"
    by (rule and_exp_eq_0_iff_not_bit)
  moreover have "bit w 31 = (2 ^ 31 \<le> uint w)"
  proof -
    have "bit w 31 = bit (uint w) 31" by (simp add: bit_uint_iff)
    also have "\<dots> = odd (uint w div 2 ^ 31)" by (simp only: bit_iff_odd)
    finally have "bit w 31 = odd (uint w div 2 ^ 31)" .
    moreover have "uint w div 2 ^ 31 = (if uint w < 2 ^ 31 then 0 else 1)"
      using uint_lt2p [of w] uint_ge_0 [of w] by (auto simp: div_pos_pos_trivial) 
    ultimately show ?thesis by auto
  qed
  ultimately show ?thesis by simp
qed

lemma sign_bit_uint: "sign_bit x = (2 ^ 31 \<le> uint (w0 x))"
  by (simp only: sign_bit_def sign_test)

lemma biased_exp_uint: "biased_exp x = uint (w0 x) mod 2 ^ 31 div 2 ^ 16"
  by (simp only: biased_exp_def uint_drop16 uint_low31)

lemma fraction_uint:
  "fraction x = (uint (w0 x) mod 2 ^ 16) * 2 ^ 96 + uint (w1 x) * 2 ^ 64
                 + uint (w2 x) * 2 ^ 32 + uint (w3 x)"
  by (simp only: fraction_def uint_low16)

lemma int_div_less:
  fixes a b c :: int
  assumes "a < b * c" "0 < c"
  shows "a div c < b"
proof -
  have "a div c * c \<le> a"
    using assms(2) by (metis mult.commute pos_mod_sign mult_div_mod_eq le_add_same_cancel1)
  then have "a div c * c < b * c" using assms(1) by simp
  then show ?thesis using assms(2) by (simp only: mult_less_cancel_right_pos)
qed

lemma biased_exp_range: "0 \<le> biased_exp x \<and> biased_exp x < 2 ^ 15"
proof -
  have "0 \<le> uint (w0 x) mod 2 ^ 31" "uint (w0 x) mod 2 ^ 31 < 2 ^ 15 * 2 ^ 16" by simp_all
  then show ?thesis unfolding biased_exp_uint
    by (simp add: pos_imp_zdiv_nonneg_iff int_div_less del: power_numeral)
qed

lemma join_lt:
  fixes a b :: int
  assumes "a < A" "0 \<le> b" "b < B"
  shows "a * B + b < A * B"
proof -
  have "a + 1 \<le> A" using assms by simp
  then have "(a + 1) * B \<le> A * B" using assms by (intro mult_right_mono) auto
  then show ?thesis using assms by (simp add: algebra_simps)
qed

lemma join_range:
  fixes a b :: int
  assumes "0 \<le> a" "a < A" "0 \<le> b" "b < B"
  shows "0 \<le> a * B + b \<and> a * B + b < A * B"
  using assms join_lt [of a A b B] by simp

lemma fraction_range: "0 \<le> fraction x \<and> fraction x < 2 ^ 112"
proof -
  define a where "a = uint (w0 x) mod 2 ^ 16"
  define b where "b = uint (w1 x)"
  define c where "c = uint (w2 x)"
  define d where "d = uint (w3 x)"
  have a: "0 \<le> a" "a < 2 ^ 16" by (simp_all add: a_def)
  have b: "0 \<le> b" "b < 2 ^ 32" using uint_lt2p [of "w1 x"] by (simp_all add: b_def)
  have c: "0 \<le> c" "c < 2 ^ 32" using uint_lt2p [of "w2 x"] by (simp_all add: c_def)
  have d: "0 \<le> d" "d < 2 ^ 32" using uint_lt2p [of "w3 x"] by (simp_all add: d_def)
  have 1: "0 \<le> a * 2 ^ 32 + b \<and> a * 2 ^ 32 + b < 2 ^ 16 * 2 ^ 32"
    by (rule join_range [OF a b])
  have 2: "0 \<le> (a * 2 ^ 32 + b) * 2 ^ 32 + c \<and> (a * 2 ^ 32 + b) * 2 ^ 32 + c < 2 ^ 16 * 2 ^ 32 * 2 ^ 32"
    using join_range [OF _ _ c] 1 by blast
  have 3: "0 \<le> ((a * 2 ^ 32 + b) * 2 ^ 32 + c) * 2 ^ 32 + d
        \<and> ((a * 2 ^ 32 + b) * 2 ^ 32 + c) * 2 ^ 32 + d < 2 ^ 16 * 2 ^ 32 * 2 ^ 32 * 2 ^ 32"
    using join_range [OF _ _ d] 2 by blast
  have "fraction x = ((a * 2 ^ 32 + b) * 2 ^ 32 + c) * 2 ^ 32 + d"
    unfolding fraction_uint a_def b_def c_def d_def by (simp add: algebra_simps)
  then show ?thesis using 3 by simp
qed

lemma split_words:
  fixes f :: int
  shows "f = f div 2 ^ 96 * 2 ^ 96 + f div 2 ^ 64 mod 2 ^ 32 * 2 ^ 64
             + f div 2 ^ 32 mod 2 ^ 32 * 2 ^ 32 + f mod 2 ^ 32"
proof -
  define q1 where "q1 = f div 2 ^ 32"
  define q2 where "q2 = q1 div 2 ^ 32"
  define q3 where "q3 = q2 div 2 ^ 32"
  have e2: "f div 2 ^ 64 = q2"
    unfolding q2_def q1_def by (simp add: zdiv_zmult2_eq)
  have e3: "f div 2 ^ 96 = q3"
    unfolding q3_def q2_def q1_def by (simp add: zdiv_zmult2_eq)
  have 1: "f = q1 * 2 ^ 32 + f mod 2 ^ 32" unfolding q1_def by simp
  have 2: "q1 = q2 * 2 ^ 32 + q1 mod 2 ^ 32" unfolding q2_def by simp
  have 3: "q2 = q3 * 2 ^ 32 + q2 mod 2 ^ 32" unfolding q3_def by simp
  have "f = ((q3 * 2 ^ 32 + q2 mod 2 ^ 32) * 2 ^ 32 + q1 mod 2 ^ 32) * 2 ^ 32 + f mod 2 ^ 32"
    using 1 2 3 by simp
  then show ?thesis unfolding e2 e3 q1_def [symmetric] by (simp add: algebra_simps)
qed

lemma uint_word32: "0 \<le> k \<Longrightarrow> k < 2 ^ 32 \<Longrightarrow> uint (word_of_int k :: 32 word) = k"
  by (simp add: uint_word_of_int)

lemma mk_float128_fields:
  assumes "0 \<le> e" "e < 2 ^ 15" "0 \<le> f" "f < 2 ^ 112"
  shows "sign_bit (mk_float128 s e f) = s"
    and "biased_exp (mk_float128 s e f) = e"
    and "fraction (mk_float128 s e f) = f"
proof -
  define g where "g = f div 2 ^ 96"
  define h where "h = (if s then 2 ^ 31 else 0) + e * 2 ^ 16 + g"
  have g: "0 \<le> g" "g < 2 ^ 16"
    using assms(3,4) unfolding g_def by (simp_all add: pos_imp_zdiv_nonneg_iff int_div_less)
  have eg: "0 \<le> e * 2 ^ 16 + g \<and> e * 2 ^ 16 + g < 2 ^ 15 * 2 ^ 16"
    by (rule join_range [OF assms(1,2) g])
  then have h: "0 \<le> h" "h < 2 ^ 32" unfolding h_def by auto
  have "w0 (mk_float128 s e f) = word_of_int h"
    by (simp only: mk_float128_def h_def g_def ieee854_long_double_shape_type.select_convs)
  then have w0: "uint (w0 (mk_float128 s e f)) = h"
    using h by (simp only: uint_word32)
  show "sign_bit (mk_float128 s e f) = s"
    unfolding sign_bit_uint w0 using eg by (auto simp: h_def)
  have m31: "h mod 2 ^ 31 = e * 2 ^ 16 + g"
  proof -
    have "h = (e * 2 ^ 16 + g) + (if s then 1 else 0) * 2 ^ 31" by (simp add: h_def)
    then have "h mod 2 ^ 31 = (e * 2 ^ 16 + g) mod 2 ^ 31" by (simp only: mod_mult_self1)
    then show ?thesis using eg by simp
  qed
  show "biased_exp (mk_float128 s e f) = e"
    unfolding biased_exp_uint w0 m31 using g by simp
  have m16: "h mod 2 ^ 16 = g"
  proof -
    have "h = g + ((if s then 2 ^ 15 else 0) + e) * 2 ^ 16" by (simp add: h_def algebra_simps)
    then have "h mod 2 ^ 16 = g mod 2 ^ 16" by (simp only: mod_mult_self1)
    then show ?thesis using g by simp
  qed
  have ws: "uint (w1 (mk_float128 s e f)) = f div 2 ^ 64 mod 2 ^ 32"
    "uint (w2 (mk_float128 s e f)) = f div 2 ^ 32 mod 2 ^ 32"
    "uint (w3 (mk_float128 s e f)) = f mod 2 ^ 32"
    by (simp_all add: mk_float128_def uint_word_of_int)
  show "fraction (mk_float128 s e f) = f"
    unfolding fraction_uint w0 m16 ws g_def using split_words [of f] by simp
qed

lemma c16: "(0xffff::32 word) = mask 16" by (simp add: mask_eq_exp_minus_1)
lemma c31: "(0x7fffffff::32 word) = mask 31" by (simp add: mask_eq_exp_minus_1)
lemma cs: "(0x80000000::32 word) = 2 ^ 31" by simp
lemma cq: "(0x8000::32 word) = 2 ^ 15" by simp

lemma xor_exp_and_mask:
  "m \<le> n \<Longrightarrow> ((w::32 word) XOR 2 ^ n) AND mask m = w AND mask m"
  by (rule bit_word_eqI) (auto simp: bit_simps)

lemma or_exp_and_exp:
  "m \<noteq> n \<Longrightarrow> ((w::32 word) OR 2 ^ n) AND 2 ^ m = w AND 2 ^ m"
  by (rule bit_word_eqI) (auto simp: bit_simps)

lemma or_exp_drop_mask:
  "n < k \<Longrightarrow> drop_bit k (((w::32 word) OR 2 ^ n) AND mask m) = drop_bit k (w AND mask m)"
  by (rule bit_word_eqI) (auto simp: bit_simps)

lemma xor_exp_test:
  "n < 32 \<Longrightarrow> (((w::32 word) XOR 2 ^ n) AND 2 ^ n \<noteq> 0) = (w AND 2 ^ n = 0)"
  by (simp only: and_exp_eq_0_iff_not_bit) (simp add: bit_simps)

lemma xor_sign_low31: "((w::32 word) XOR 0x80000000) AND 0x7fffffff = w AND 0x7fffffff"
  using xor_exp_and_mask [of 31 31 w] by (simp add: c31)

lemma xor_sign_low16: "((w::32 word) XOR 0x80000000) AND 0xffff = w AND 0xffff"
  using xor_exp_and_mask [of 16 31 w] by (simp add: c16)

lemma xor_sign_test: "(((w::32 word) XOR 0x80000000) AND 0x80000000 \<noteq> 0) = (w AND 0x80000000 = 0)"
  using xor_exp_test [of 31 w] by simp

lemma fneg_fields:
  "sign_bit (fneg x) = (\<not> sign_bit x)"
  "biased_exp (fneg x) = biased_exp x"
  "fraction (fneg x) = fraction x"
  by (simp_all add: fneg_def sign_bit_def biased_exp_def fraction_def xor_sign_low31
        xor_sign_low16 xor_sign_test)

lemma or_quiet_low31: "drop_bit 16 (((w::32 word) OR 0x8000) AND 0x7fffffff) = drop_bit 16 (w AND 0x7fffffff)"
  using or_exp_drop_mask [of 15 16 w 31] by (simp add: c31)

lemma or_quiet_test: "((w::32 word) OR 0x8000) AND 0x80000000 = w AND 0x80000000"
  using or_exp_and_exp [of 31 15 w] by simp

lemma or_quiet_low16:
  "uint (((w::32 word) OR 0x8000) AND 0xffff)
     = uint (w AND 0xffff) + (if bit w 15 then 0 else 2 ^ 15)"
proof -
  define h where "h = uint w"
  have "uint (w OR 0x8000) = h OR 2 ^ 15" by (simp add: uint_or h_def)
  also have "\<dots> = Bit_Operations.set_bit 15 h" by (simp add: set_bit_eq_or)
  also have "\<dots> = h + of_bool (\<not> bit h 15) * 2 ^ 15" by (rule set_bit_eq)
  finally have 1: "uint (w OR 0x8000) = h + of_bool (\<not> bit h 15) * 2 ^ 15" .
  have b: "bit w 15 = bit h 15" by (simp add: h_def bit_uint_iff)
  have o: "bit h 15 = odd (h div 2 ^ 15)" by (simp only: bit_iff_odd)
  show ?thesis
  proof (cases "bit h 15")
    case True
    then show ?thesis using 1 b by (simp add: uint_low16 h_def)
  next
    case False
    then have "even (h div 2 ^ 15)" using o by simp
    then obtain q where q: "h div 2 ^ 15 = 2 * q" by (auto elim: evenE)
    define r where "r = h mod 2 ^ 15"
    have r: "0 \<le> r" "r < 2 ^ 15" by (simp_all add: r_def)
    have "h = h div 2 ^ 15 * 2 ^ 15 + r" unfolding r_def by simp
    then have h: "h = r + q * 2 ^ 16" using q by simp
    have "h mod 2 ^ 16 = r mod 2 ^ 16" unfolding h by (simp only: mod_mult_self1)
    then have m1: "h mod 2 ^ 16 = r" using r by simp
    have "h + 2 ^ 15 = (r + 2 ^ 15) + q * 2 ^ 16" using h by simp
    then have "(h + 2 ^ 15) mod 2 ^ 16 = (r + 2 ^ 15) mod 2 ^ 16" by (simp only: mod_mult_self1)
    then have m2: "(h + 2 ^ 15) mod 2 ^ 16 = r + 2 ^ 15" using r by simp
    show ?thesis using 1 b False m1 m2 by (simp add: uint_low16 h_def)
  qed
qed

lemma quiet_fields:
  "sign_bit (quiet x) = sign_bit x"
  "biased_exp (quiet x) = biased_exp x"
  "fraction (quiet x) = fraction x + (if bit (w0 x) 15 then 0 else 2 ^ 111)"
  by (simp_all add: quiet_def sign_bit_def biased_exp_def fraction_def or_quiet_low31
        or_quiet_test or_quiet_low16)

lemma is_nan_quiet: "is_nan x \<Longrightarrow> is_nan (quiet x)"
  using fraction_range [of x] by (auto simp: is_nan_def quiet_fields)

lemma quiet_payload: "fraction (quiet x) mod 2 ^ 111 = fraction x mod 2 ^ 111"
  by (simp add: quiet_fields)

section \<open>The tests of the special cases\<close>

lemma sint_nonneg_uint:
  fixes v :: "32 word"
  assumes "uint v < 2 ^ 31"
  shows "sint v = uint v"
proof -
  have "- (2 ^ 31) \<le> uint v" by (rule order_trans [of _ 0]) simp_all
  then have "signed_take_bit 31 (uint v) = uint v"
    using assms by (intro signed_take_bit_int_eq_self)
  then show ?thesis by (simp add: sint_uint)
qed

lemma sint_low31: "sint (w AND 0x7fffffff :: 32 word) = uint w mod 2 ^ 31"
proof -
  have "uint (w AND 0x7fffffff) < 2 ^ 31" by (simp only: uint_low31) simp
  then show ?thesis by (simp only: sint_nonneg_uint uint_low31)
qed

lemma low31_split:
  fixes h :: int
  shows "h mod 2 ^ 31 = h mod 2 ^ 31 div 2 ^ 16 * 2 ^ 16 + h mod 2 ^ 16"
proof -
  have "h mod 2 ^ 31 mod 2 ^ 16 = h mod 2 ^ 16"
    by (rule mod_mod_cancel) simp
  then show ?thesis using div_mult_mod_eq [of "h mod 2 ^ 31" "2 ^ 16"] by simp
qed

lemma exp_all_ones_iff: "(0x7fff0000 \<le> sint (w0 x AND 0x7fffffff)) = (biased_exp x = 0x7fff)"
proof -
  define r where "r = uint (w0 x) mod 2 ^ 31"
  define b where "b = biased_exp x"
  have b: "0 \<le> b" "b < 2 ^ 15" using biased_exp_range [of x] by (simp_all add: b_def)
  have l: "0 \<le> uint (w0 x) mod 2 ^ 16" "uint (w0 x) mod 2 ^ 16 < 2 ^ 16" by simp_all
  have "r = b * 2 ^ 16 + uint (w0 x) mod 2 ^ 16"
    unfolding r_def b_def biased_exp_uint by (rule low31_split)
  then have "(0x7fff0000 \<le> r) = (b = 0x7fff)" using b l by auto
  then show ?thesis by (simp only: sint_low31 r_def b_def)
qed

lemma word_or_eq_0: "((a::32 word) OR b = 0) = (a = 0 \<and> b = 0)"
  by (rule or_eq_0_iff)

lemma nonneg_sum4_eq_0:
  fixes a b c d :: int
  assumes "0 \<le> a" "0 \<le> b" "0 \<le> c" "0 \<le> d" "0 < A" "0 < B" "0 < C"
  shows "(a * A + b * B + c * C + d = 0) = (a = 0 \<and> b = 0 \<and> c = 0 \<and> d = 0)"
proof -
  have p: "0 \<le> a * A" "0 \<le> b * B" "0 \<le> c * C" using assms by simp_all
  have "(a * A + b * B + c * C + d = 0) = (a * A = 0 \<and> b * B = 0 \<and> c * C = 0 \<and> d = 0)"
    using p assms(4) by linarith
  then show ?thesis using assms(5,6,7) by simp
qed

lemma zero_test_iff:
  "(((w0 x AND 0x7fffffff) OR w1 x OR w2 x OR w3 x) = 0) = is_zero x"
proof -
  define b where "b = biased_exp x"
  define l where "l = uint (w0 x) mod 2 ^ 16"
  have b: "0 \<le> b" using biased_exp_range [of x] by (simp_all add: b_def)
  have l: "0 \<le> l" by (simp add: l_def)
  have r: "uint (w0 x) mod 2 ^ 31 = b * 2 ^ 16 + l"
    unfolding l_def b_def biased_exp_uint by (rule low31_split)
  have "(w0 x AND 0x7fffffff = 0) = (uint (w0 x) mod 2 ^ 31 = 0)"
    by (simp only: uint_low31 [symmetric] uint_0_iff)
  also have "\<dots> = (b = 0 \<and> l = 0)" unfolding r using b l by auto
  finally have 1: "(w0 x AND 0x7fffffff = 0) = (b = 0 \<and> l = 0)" .
  have "(fraction x = 0) = (l = 0 \<and> w1 x = 0 \<and> w2 x = 0 \<and> w3 x = 0)"
  proof -
    have n: "0 \<le> uint (w1 x)" "0 \<le> uint (w2 x)" "0 \<le> uint (w3 x)" by simp_all
    have "fraction x = l * 2 ^ 96 + uint (w1 x) * 2 ^ 64 + uint (w2 x) * 2 ^ 32 + uint (w3 x)"
      by (simp only: fraction_uint l_def)
    moreover have "(l * 2 ^ 96 + uint (w1 x) * 2 ^ 64 + uint (w2 x) * 2 ^ 32 + uint (w3 x) = 0)
          = (l = 0 \<and> uint (w1 x) = 0 \<and> uint (w2 x) = 0 \<and> uint (w3 x) = 0)"
      by (rule nonneg_sum4_eq_0 [OF l n]) simp_all
    ultimately show ?thesis by (simp only: uint_0_iff)
  qed
  then show ?thesis
    unfolding is_zero_def word_or_eq_0 1 b_def [symmetric] by auto
qed

lemma sign_test_iff: "(w0 x AND 0x80000000 \<noteq> 0) = sign_bit x"
  by (simp only: sign_bit_def)

section \<open>The table index\<close>

lemma int_or_exp_add:
  fixes a :: int
  assumes "0 \<le> a" "a < 2 ^ n"
  shows "a OR 2 ^ n = a + 2 ^ n"
proof -
  have "a div 2 ^ n = 0" using assms by (simp add: div_pos_pos_trivial)
  then have nb: "\<not> bit a n" by (simp add: bit_iff_odd)
  have "a OR 2 ^ n = Bit_Operations.set_bit n a" by (simp add: set_bit_eq_or)
  also have "\<dots> = a + of_bool (\<not> bit a n) * 2 ^ n" by (rule set_bit_eq)
  finally show ?thesis using nb by simp
qed

lemma uint_index_word:
  "uint (((w::32 word) AND 0xffff) OR 0x10000) = uint w mod 2 ^ 16 + 2 ^ 16"
proof -
  have "uint ((w AND 0xffff) OR 0x10000) = uint (w AND 0xffff) OR 2 ^ 16"
    by (simp add: uint_or)
  also have "\<dots> = uint w mod 2 ^ 16 OR 2 ^ 16" by (simp only: uint_low16)
  also have "\<dots> = uint w mod 2 ^ 16 + 2 ^ 16" by (rule int_or_exp_add) simp_all
  finally show ?thesis .
qed

lemma uint_drop_bit32: "uint (drop_bit n (v :: 32 word)) = uint v div 2 ^ n"
proof -
  have "take_bit LENGTH(32) (uint v) = uint v"
    using uint_lt2p [of v] by (simp add: take_bit_eq_mod)
  then have "uint (drop_bit n v) = drop_bit n (uint v)"
    by (simp only: unsigned_drop_bit_eq)
  then show ?thesis by (simp only: drop_bit_eq_div)
qed

lemma uint_sub32:
  fixes a b :: "32 word"
  assumes "uint b \<le> uint a"
  shows "uint (a - b) = uint a - uint b"
  using assms uint_sub_lem [of b a] by simp

lemma uint_add32:
  fixes a b :: "32 word"
  assumes "uint a + uint b < 2 ^ 32"
  shows "uint (a + b) = uint a + uint b"
  using assms uint_add_lem [of a b] by simp

lemma fine_index:
  fixes m :: "32 word"
  assumes "2 ^ 16 \<le> uint m" "m < 0x16800"
  shows "uint (drop_bit 9 (m - 0xff00)) = (uint m - 0xff00) div 2 ^ 9"
    and "0 \<le> (uint m - 0xff00) div 2 ^ 9" and "(uint m - 0xff00) div 2 ^ 9 \<le> 52"
proof -
  have lt: "uint m < 0x16800" using assms(2) by (simp add: word_less_alt)
  have "uint (m - 0xff00) = uint m - 0xff00"
    using assms(1) by (intro uint_sub32 [of "0xff00" m, simplified]) simp
  then show "uint (drop_bit 9 (m - 0xff00)) = (uint m - 0xff00) div 2 ^ 9"
    by (simp only: uint_drop_bit32)
  show "0 \<le> (uint m - 0xff00) div 2 ^ 9" using assms(1) by (simp add: pos_imp_zdiv_nonneg_iff)
  have "(uint m - 0xff00) div 2 ^ 9 < 53"
    by (rule int_div_less) (use lt in simp_all)
  then show "(uint m - 0xff00) div 2 ^ 9 \<le> 52" by simp
qed

lemma coarse_index:
  fixes m :: "32 word"
  assumes "uint m < 2 ^ 17" "\<not> m < 0x16800"
  shows "uint (drop_bit 10 (m - 0xfe00)) = (uint m - 0xfe00) div 2 ^ 10"
    and "26 \<le> (uint m - 0xfe00) div 2 ^ 10" and "(uint m - 0xfe00) div 2 ^ 10 \<le> 64"
proof -
  have ge: "0x16800 \<le> uint m" using assms(2) by (simp add: word_less_alt)
  have "uint (m - 0xfe00) = uint m - 0xfe00"
    using ge by (intro uint_sub32 [of "0xfe00" m, simplified]) simp
  then show "uint (drop_bit 10 (m - 0xfe00)) = (uint m - 0xfe00) div 2 ^ 10"
    by (simp only: uint_drop_bit32)
  have "26 * 2 ^ 10 \<le> uint m - 0xfe00" using ge by simp
  then have "26 * 2 ^ 10 div 2 ^ 10 \<le> (uint m - 0xfe00) div 2 ^ 10"
    by (intro zdiv_mono1) simp_all
  then show "26 \<le> (uint m - 0xfe00) div 2 ^ 10" by simp
  have "(uint m - 0xfe00) div 2 ^ 10 < 65"
    by (rule int_div_less) (use assms(1) in simp_all)
  then show "(uint m - 0xfe00) div 2 ^ 10 \<le> 64" by simp
qed

lemma index_word_range:
  "2 ^ 16 \<le> uint (((w::32 word) AND 0xffff) OR 0x10000)"
  "uint (((w::32 word) AND 0xffff) OR 0x10000) < 2 ^ 17"
  by (simp_all only: uint_index_word) simp_all

lemma table_index_k_range:
  "26 \<le> uint (rs_k (table_index u e)) \<and> uint (rs_k (table_index u e)) \<le> 116"
proof -
  define m where "m = (w0 u AND 0xffff) OR 0x10000"
  have m: "2 ^ 16 \<le> uint m" "uint m < 2 ^ 17"
    unfolding m_def by (rule index_word_range)+
  show ?thesis
  proof (cases "m < 0x16800")
    case True
    define k where "k = drop_bit 9 (m - 0xff00)"
    have k: "0 \<le> uint k" "uint k \<le> 52"
      using fine_index [OF m(1) True] by (simp_all add: k_def)
    then have "uint (k + 64) = uint k + 64"
      by (intro uint_add32 [of k 64, simplified]) simp
    moreover have "rs_k (table_index u e) = k + 64"
      using True by (simp add: table_index_def Let_def m_def k_def)
    ultimately show ?thesis using k by simp
  next
    case False
    define k where "k = drop_bit 10 (m - 0xfe00)"
    have k: "26 \<le> uint k" "uint k \<le> 64"
      using coarse_index [OF m(2) False] by (simp_all add: k_def)
    moreover have "rs_k (table_index u e) = k"
      using False by (simp add: table_index_def Let_def m_def k_def)
    ultimately show ?thesis by simp
  qed
qed

lemma sint_index:
  fixes k :: "32 word"
  assumes "26 \<le> uint k" "uint k \<le> 116"
  shows "sint (k - 26) = uint k - 26"
proof -
  have "uint (k - 26) = uint k - 26"
    using assms(1) by (intro uint_sub32 [of 26 k, simplified]) simp
  moreover have "uint (k - 26) < 2 ^ 31" using assms(2) calculation by simp
  ultimately show ?thesis by (simp only: sint_nonneg_uint)
qed

lemma range_reduce_index:
  assumes "range_reduce x = Reduced z e k t"
  shows "0 \<le> sint (k - 26) \<and> sint (k - 26) \<le> 90"
proof -
  obtain u e0 where f: "frexpl x = (u, e0)" by (cases "frexpl x")
  have "k = 64 \<or> k = rs_k (table_index u e0)"
    using assms by (auto simp: range_reduce_def f Let_def split: if_splits)
  then show ?thesis
  proof
    assume "k = 64"
    then show ?thesis by simp
  next
    assume k: "k = rs_k (table_index u e0)"
    have r: "26 \<le> uint k" "uint k \<le> 116"
      using table_index_k_range [of u e0] by (simp_all add: k)
    show ?thesis using sint_index [OF r] r by simp
  qed
qed

lemma length_logtbl: "length logtbl = 92"
  by (simp add: logtbl_def)


section \<open>Constants\<close>

lemma ZERO_decimal: "ZERO = decimal 0 40"
  by (simp add: ZERO_def logtbl_def)

lemma decimal_0: "decimal 0 k = pos_zero"
  by (simp add: decimal_def signed_zero_def mk_float128_def pos_zero_def)

lemma ZERO_bits: "ZERO = pos_zero"
  by (simp only: ZERO_decimal decimal_0)

lemma half_bits: "decimal 5 1 = \<lparr> w0 = 0x3ffe0000, w1 = 0, w2 = 0, w3 = 0 \<rparr>"
  by code_simp

lemma float_of_int_1: "float_of_int 1 = one"
  unfolding one_def by code_simp

lemma float_of_int_0: "float_of_int 0 = pos_zero"
  unfolding pos_zero_def by code_simp

lemma band_hi: "decimal 10078125 7 = \<lparr> w0 = 0x3fff0200, w1 = 0, w2 = 0, w3 = 0 \<rparr>"
  by code_simp

lemma band_lo: "decimal 9921875 7 = \<lparr> w0 = 0x3ffefc00, w1 = 0, w2 = 0, w3 = 0 \<rparr>"
  by code_simp

lemma minus_half_over_zero: "fdiv (fneg (decimal 5 1)) pos_zero = neg_infinity"
  unfolding half_bits pos_zero_def neg_infinity_def by code_simp

lemma neg_infinity_is: "neg_infinity = infinity True"
  unfolding neg_infinity_def by code_simp

lemma is_nan_default_nan: "is_nan default_nan"
  by code_simp

lemma pos_zero_fields: "sign_bit pos_zero = False" "biased_exp pos_zero = 0" "fraction pos_zero = 0"
  by (simp_all add: pos_zero_def sign_bit_def biased_exp_def fraction_def)

lemma signed_zero_False: "signed_zero False = pos_zero"
  by (simp add: signed_zero_def mk_float128_def pos_zero_def)

section \<open>Special values\<close>

lemma special_case_eq:
  "special_case x =
     (if is_zero x then Some (fdiv (fneg (decimal 5 1)) ZERO)
      else if sign_bit x then Some (fdiv (fsub x x) ZERO)
      else if biased_exp x = 0x7fff then Some (fadd x x)
      else None)"
  unfolding special_case_def Let_def
  by (simp only: zero_test_iff sign_test_iff exp_all_ones_iff)

lemma quiet_quiet: "quiet (quiet x) = quiet x"
  by (simp add: quiet_def word_bw_assocs)

lemma is_zero_not_nan: "is_zero x \<Longrightarrow> \<not> is_nan x" "is_zero x \<Longrightarrow> \<not> is_inf x"
  by (simp_all add: is_zero_def is_nan_def is_inf_def)

lemma fneg_class:
  "is_nan (fneg x) = is_nan x" "is_inf (fneg x) = is_inf x" "is_zero (fneg x) = is_zero x"
  by (simp_all add: is_nan_def is_inf_def is_zero_def fneg_fields)

lemma fneg_values:
  "significand (fneg x) = significand x" "exponent2 (fneg x) = exponent2 x"
  "signed_significand (fneg x) = - signed_significand x"
  by (simp_all add: significand_def exponent2_def signed_significand_def fneg_fields)

lemma pos_zero_class: "is_zero pos_zero" "\<not> is_nan pos_zero" "\<not> is_inf pos_zero"
  by (simp_all add: is_zero_def is_nan_def is_inf_def pos_zero_fields)

lemma fsub_self:
  "fsub x x = (if is_nan x then quiet x else if is_inf x then default_nan else pos_zero)"
  by (simp add: fsub_def fadd_def fneg_class fneg_fields add_finite_def Let_def fneg_values
        signed_zero_False)

lemma fdiv_nan: "is_nan a \<Longrightarrow> fdiv a b = quiet a"
  by (simp add: fdiv_def)

lemma zero_over_zero: "fdiv pos_zero pos_zero = default_nan"
  by (simp add: fdiv_def pos_zero_class)

lemma negative_branch_nan: "is_nan (fdiv (fsub x x) ZERO)"
proof (cases "is_nan x")
  case True
  then show ?thesis
    by (simp add: fsub_self fdiv_nan is_nan_quiet quiet_quiet)
next
  case False
  show ?thesis
  proof (cases "is_inf x")
    case True
    then show ?thesis using False
      by (simp add: fsub_self fdiv_nan is_nan_default_nan is_nan_quiet)
  next
    case inf: False
    then show ?thesis using False
      by (simp add: fsub_self ZERO_bits zero_over_zero is_nan_default_nan)
  qed
qed

lemma negative_branch_of_nan: "is_nan x \<Longrightarrow> fdiv (fsub x x) ZERO = quiet x"
  by (simp add: fsub_self fdiv_nan is_nan_quiet quiet_quiet)

lemma fadd_nan: "is_nan x \<Longrightarrow> fadd x y = quiet x"
  by (simp add: fadd_def)

lemma is_nan_not_zero: "is_nan x \<Longrightarrow> \<not> is_zero x"
  by (simp add: is_zero_def is_nan_def)

section \<open>The accumulation\<close>

lemma length_coefficients: "length coefficients = 13"
  by (simp add: coefficients_def)

lemma series_horner: "series z = fmul (fmul (horner coefficients z) z) (fmul z z)"
  by (simp add: series_def horner_def coefficients_def Let_def)

lemma accumulate_spec:
  assumes "0 \<le> sint (k - 26)" "sint (k - 26) < 92"
  shows "accumulate z e k t = Some (spec_accumulate z e (logtbl ! nat (sint (k - 26))) t)"
  using assms
  by (simp add: accumulate_def spec_accumulate_def logtbl_read_def series_horner Let_def)

lemma special_case_None:
  assumes "\<not> sign_bit x" "is_finite x" "\<not> is_zero x"
  shows "special_case x = None"
  using assms by (simp add: special_case_eq is_finite_def)

lemma range_reduce_Reduced:
  assumes "\<not> feq x (float_of_int 1)"
  shows "\<exists>z e k t. range_reduce x = Reduced z e k t"
proof -
  obtain u e0 where f: "frexpl x = (u, e0)" by (cases "frexpl x")
  show ?thesis using assms by (simp add: range_reduce_def f Let_def)
qed

lemma three_reduced:
  "range_reduce \<lparr> w0 = 0x40008000, w1 = 0, w2 = 0, w3 = 0 \<rparr>
     = Reduced pos_zero 2 32 \<lparr> w0 = 0x3ffe8000, w1 = 0, w2 = 0, w3 = 0 \<rparr>"
  unfolding pos_zero_def by code_simp


section \<open>The band around 1\<close>

lemma order_key_band_lo: "order_key (decimal 9921875 7) = 0x3ffefc00 * 2 ^ 96"
  unfolding band_lo by code_simp

lemma order_key_band_hi: "order_key (decimal 10078125 7) = 0x3fff0200 * 2 ^ 96"
  unfolding band_hi by code_simp

lemma order_key_sign: "sign_bit x \<Longrightarrow> order_key x \<le> 0"
  using biased_exp_range [of x] fraction_range [of x]
  by (simp add: order_key_def Let_def)

lemma order_key_zero: "is_zero x \<Longrightarrow> order_key x = 0"
  by (simp add: order_key_def is_zero_def Let_def)

lemma order_key_exp: "\<not> sign_bit x \<Longrightarrow> biased_exp x * 2 ^ 112 \<le> order_key x"
  using fraction_range [of x] by (simp add: order_key_def Let_def)

lemma band_positive_finite:
  assumes "fle x (decimal 10078125 7)" "fge x (decimal 9921875 7)"
  shows "\<not> sign_bit x \<and> is_finite x \<and> \<not> is_zero x"
proof -
  have lo: "0x3ffefc00 * 2 ^ 96 \<le> order_key x"
    using assms(2) by (simp add: fge_def fle_def order_key_band_lo)
  have hi: "order_key x \<le> 0x3fff0200 * 2 ^ 96"
    using assms(1) by (simp add: fle_def order_key_band_hi)
  have s: "\<not> sign_bit x" using lo order_key_sign [of x] by auto
  have z: "\<not> is_zero x" using lo order_key_zero [of x] by auto
  have "biased_exp x * 2 ^ 112 \<le> 0x3fff0200 * 2 ^ 96"
    using order_key_exp [OF s] hi by simp
  then have "biased_exp x < 0x7fff" by simp
  then show ?thesis using s z by (simp add: is_finite_def)
qed

lemma x_above_one:
  "fle \<lparr> w0 = 0x3fff0100, w1 = 0, w2 = 0, w3 = 0 \<rparr> (decimal 10078125 7)"
  "fge \<lparr> w0 = 0x3fff0100, w1 = 0, w2 = 0, w3 = 0 \<rparr> (decimal 9921875 7)"
  "\<not> feq \<lparr> w0 = 0x3fff0100, w1 = 0, w2 = 0, w3 = 0 \<rparr> (float_of_int 1)"
  unfolding band_hi band_lo float_of_int_1 one_def by code_simp+


section \<open>The realignment of the fine tier\<close>

lemma uint_w0_split:
  "uint (w0 x) = (if sign_bit x then 2 ^ 31 else 0) + biased_exp x * 2 ^ 16 + uint (w0 x) mod 2 ^ 16"
proof -
  define h where "h = uint (w0 x)"
  have r: "0 \<le> h" "h < 2 ^ 32" using uint_lt2p [of "w0 x"] by (simp_all add: h_def)
  have d: "h div 2 ^ 31 = (if 2 ^ 31 \<le> h then 1 else 0)"
    using r by (auto simp: div_pos_pos_trivial)
  have "h = h div 2 ^ 31 * 2 ^ 31 + h mod 2 ^ 31" by simp
  also have "\<dots> = (if 2 ^ 31 \<le> h then 2 ^ 31 else 0) + h mod 2 ^ 31"
    by (simp only: d) simp
  finally show ?thesis
    unfolding sign_bit_uint biased_exp_uint h_def [symmetric]
    using low31_split [of h] by simp
qed

lemma fields_of_uint:
  assumes "uint (w0 x) = (if s then 2 ^ 31 else 0) + b * 2 ^ 16 + l"
    and "0 \<le> b" "b < 2 ^ 15" "0 \<le> l" "l < 2 ^ 16"
  shows "sign_bit x = s" and "biased_exp x = b" and "uint (w0 x) mod 2 ^ 16 = l"
proof -
  define h where "h = uint (w0 x)"
  have h: "h = (if s then 2 ^ 31 else 0) + b * 2 ^ 16 + l" using assms(1) by (simp add: h_def)
  have bl: "0 \<le> b * 2 ^ 16 + l \<and> b * 2 ^ 16 + l < 2 ^ 15 * 2 ^ 16"
    by (rule join_range [OF assms(2-5)])
  show "sign_bit x = s"
    unfolding sign_bit_uint h_def [symmetric] using bl by (auto simp: h)
  have "h = (b * 2 ^ 16 + l) + (if s then 1 else 0) * 2 ^ 31" by (simp add: h)
  then have "h mod 2 ^ 31 = (b * 2 ^ 16 + l) mod 2 ^ 31" by (simp only: mod_mult_self1)
  then have m31: "h mod 2 ^ 31 = b * 2 ^ 16 + l" using bl by simp
  show "biased_exp x = b"
    unfolding biased_exp_uint h_def [symmetric] m31 using assms(4,5) by simp
  have "h = l + ((if s then 2 ^ 15 else 0) + b) * 2 ^ 16" by (simp add: h algebra_simps)
  then have "h mod 2 ^ 16 = l mod 2 ^ 16" by (simp only: mod_mult_self1)
  then show "uint (w0 x) mod 2 ^ 16 = l" using assms(4,5) by (simp add: h_def)
qed

lemma fraction_w0_update:
  assumes "uint w mod 2 ^ 16 = uint (w0 x) mod 2 ^ 16"
  shows "fraction (x \<lparr> w0 := w \<rparr>) = fraction x"
  using assms by (simp add: fraction_uint)

lemma exponent_increment:
  assumes "biased_exp u = 0x3ffe"
  shows "sign_bit (u \<lparr> w0 := w0 u + 0x10000 \<rparr>) = sign_bit u"
    and "biased_exp (u \<lparr> w0 := w0 u + 0x10000 \<rparr>) = 0x3fff"
    and "fraction (u \<lparr> w0 := w0 u + 0x10000 \<rparr>) = fraction u"
proof -
  define l where "l = uint (w0 u) mod 2 ^ 16"
  define v where "v = u \<lparr> w0 := w0 u + 0x10000 \<rparr>"
  have l: "0 \<le> l" "l < 2 ^ 16" by (simp_all add: l_def)
  have h: "uint (w0 u) = (if sign_bit u then 2 ^ 31 else 0) + 0x3ffe * 2 ^ 16 + l"
    using uint_w0_split [of u] assms by (simp add: l_def)
  then have "uint (w0 u) + uint (0x10000 :: 32 word) < 2 ^ 32" using l by simp
  then have "uint (w0 u + 0x10000) = uint (w0 u) + uint (0x10000 :: 32 word)"
    by (rule uint_add32)
  then have "uint (w0 v) = (if sign_bit u then 2 ^ 31 else 0) + 0x3fff * 2 ^ 16 + l"
    using h by (simp add: v_def)
  note f = fields_of_uint [OF this _ _ l]
  show "sign_bit (u \<lparr> w0 := w0 u + 0x10000 \<rparr>) = sign_bit u"
    using f(1) by (simp add: v_def)
  show "biased_exp (u \<lparr> w0 := w0 u + 0x10000 \<rparr>) = 0x3fff"
    using f(2) by (simp add: v_def)
  have "uint (w0 v) mod 2 ^ 16 = uint (w0 u) mod 2 ^ 16" using f(3) by (simp add: l_def)
  then show "fraction (u \<lparr> w0 := w0 u + 0x10000 \<rparr>) = fraction u"
    using fraction_w0_update [of "w0 v" u] by (simp add: v_def)
qed

lemma set_exp_low:
  "m \<le> p \<Longrightarrow> (((v::32 word) AND (2 ^ n OR mask m)) OR push_bit p (mask q)) AND mask m = v AND mask m"
  by (rule bit_word_eqI) (auto simp: bit_simps)

lemma set_exp_sign:
  "p + q \<le> n \<Longrightarrow> m \<le> n \<Longrightarrow> (((v::32 word) AND (2 ^ n OR mask m)) OR push_bit p (mask q)) AND 2 ^ n = v AND 2 ^ n"
  by (rule bit_word_eqI) (auto simp: bit_simps)

lemma set_exp_field:
  "m \<le> p \<Longrightarrow> p + q \<le> n \<Longrightarrow> n < 32 \<Longrightarrow>
   drop_bit m ((((v::32 word) AND (2 ^ n OR mask m)) OR push_bit p (mask q)) AND mask n)
     = push_bit (p - m) (mask q)"
  by (rule bit_word_eqI) (auto simp: bit_simps)

lemma k1: "(0x8000ffff::32 word) = 2 ^ 31 OR mask 16" by (simp add: mask_eq_exp_minus_1)
lemma k2: "(0x3ffe0000::32 word) = push_bit 17 (mask 13)" by (simp add: mask_eq_exp_minus_1 push_bit_eq_mult)

lemma frexpl_word_fields:
  fixes v :: "32 word"
  defines "r \<equiv> (v AND 0x8000ffff) OR 0x3ffe0000"
  shows "r AND 0xffff = v AND 0xffff"
    and "r AND 0x80000000 = v AND 0x80000000"
    and "drop_bit 16 (r AND 0x7fffffff) = 0x3ffe"
proof -
  show "r AND 0xffff = v AND 0xffff"
    unfolding r_def k1 k2 c16 by (rule set_exp_low) simp
  show "r AND 0x80000000 = v AND 0x80000000"
    unfolding r_def k1 k2 using set_exp_sign [of 17 13 31 16 v] by simp
  have "drop_bit 16 (r AND 0x7fffffff) = push_bit (17 - 16) (mask 13)"
    unfolding r_def k1 k2 c31 by (rule set_exp_field) simp_all
  then show "drop_bit 16 (r AND 0x7fffffff) = 0x3ffe"
    by (simp add: mask_eq_exp_minus_1 push_bit_eq_mult)
qed

lemma set_exponent_fields:
  "sign_bit (y \<lparr> w0 := (w0 y AND 0x8000ffff) OR 0x3ffe0000 \<rparr>) = sign_bit y"
  "biased_exp (y \<lparr> w0 := (w0 y AND 0x8000ffff) OR 0x3ffe0000 \<rparr>) = 0x3ffe"
  "fraction (y \<lparr> w0 := (w0 y AND 0x8000ffff) OR 0x3ffe0000 \<rparr>) = fraction y"
proof -
  define u where "u = y \<lparr> w0 := (w0 y AND 0x8000ffff) OR 0x3ffe0000 \<rparr>"
  have w: "w0 u = (w0 y AND 0x8000ffff) OR 0x3ffe0000" "w1 u = w1 y" "w2 u = w2 y" "w3 u = w3 y"
    by (simp_all add: u_def)
  show "sign_bit (y \<lparr> w0 := (w0 y AND 0x8000ffff) OR 0x3ffe0000 \<rparr>) = sign_bit y"
    unfolding u_def [symmetric] by (simp only: sign_bit_def w frexpl_word_fields)
  have "biased_exp u = uint (0x3ffe :: 32 word)"
    by (simp only: biased_exp_def w frexpl_word_fields)
  then show "biased_exp (y \<lparr> w0 := (w0 y AND 0x8000ffff) OR 0x3ffe0000 \<rparr>) = 0x3ffe"
    unfolding u_def [symmetric] by simp
  show "fraction (y \<lparr> w0 := (w0 y AND 0x8000ffff) OR 0x3ffe0000 \<rparr>) = fraction y"
    unfolding u_def [symmetric] by (simp only: fraction_def w frexpl_word_fields)
qed

lemma frexpl_exponent_field:
  assumes "is_finite x" "\<not> is_zero x" "frexpl x = (u, e)"
  shows "biased_exp u = 0x3ffe"
  using assms by (auto simp: frexpl_def is_finite_def Let_def set_exponent_fields)

lemma valof_fields:
  "valof x = (if sign_bit x then - 1 else 1)
               * of_int (if biased_exp x = 0 then fraction x else 2 ^ 112 + fraction x)
               * 2 powi (max (biased_exp x) 1 - 16495)"
  by (simp add: valof_def signed_significand_def significand_def exponent2_def)

lemma valof_half_to_one:
  assumes "biased_exp u = 0x3ffe"
  shows "1 / 2 \<le> \<bar>valof u\<bar> \<and> \<bar>valof u\<bar> < 1"
proof -
  have f: "0 \<le> fraction u" "fraction u < 2 ^ 112" using fraction_range [of u] by simp_all
  have "\<bar>valof u\<bar> = of_int (2 ^ 112 + fraction u) * 2 powi (- 113)"
    using f assms by (simp add: valof_fields abs_mult)
  moreover have "(of_int (2 ^ 112) :: rat) \<le> of_int (2 ^ 112 + fraction u)"
    using f by simp
  moreover have "(of_int (2 ^ 112 + fraction u) :: rat) < of_int (2 ^ 113)"
    using f by simp
  ultimately show ?thesis by (simp add: power_int_minus field_simps)
qed

lemma table_index_fine:
  assumes "(w0 u AND 0xffff) OR 0x10000 < (0x16800 :: 32 word)"
  shows "rs_u (table_index u e) = u \<lparr> w0 := w0 u + 0x10000 \<rparr>"
    and "rs_e (table_index u e) = e - 1"
  using assms by (simp_all add: table_index_def Let_def)

lemma valof_doubled:
  assumes "biased_exp u = 0x3ffe"
  shows "valof (u \<lparr> w0 := w0 u + 0x10000 \<rparr>) = 2 * valof u"
proof -
  have "(2::rat) powi (- 112) = 2 * 2 powi (- 113)"
    by (simp add: power_int_minus)
  then show ?thesis
    using assms by (simp add: valof_fields [of "u \<lparr> w0 := w0 u + 0x10000 \<rparr>"]
        valof_fields [of u] exponent_increment [OF assms])
qed

lemma realign_invariant:
  fixes v :: rat
  shows "(2 * v) * 2 powi (e - 1) = v * 2 powi e"
  by (simp add: power_int_diff)

lemma frexpl_third:
  "frexpl \<lparr> w0 = 0x3ffd5555, w1 = 0x55555555, w2 = 0x55555555, w3 = 0x55555555 \<rparr>
     = (\<lparr> w0 = 0x3ffe5555, w1 = 0x55555555, w2 = 0x55555555, w3 = 0x55555555 \<rparr>, - 1)"
  by code_simp


section \<open>Claims\<close>

text \<open>
  C3: whenever range reduction reaches the table lookup, the index \<open>k - 26\<close> used to
  subscript \<open>logtbl\<close> lies in \<open>[0, 91]\<close>, inside the 92 entries of the table, so the read
  is defined. This holds for every bit pattern \<open>x\<close>.
\<close>

theorem table_read_in_bounds:
  assumes "range_reduce x = Reduced z e k t"
  shows "0 \<le> sint (k - 26) \<and> sint (k - 26) \<le> 91 \<and> sint (k - 26) < int (length logtbl)
         \<and> logtbl_read (sint (k - 26)) = Some (logtbl ! nat (sint (k - 26)))"
  using range_reduce_index [OF assms] by (simp add: length_logtbl logtbl_read_def)

theorem table_read_in_bounds_witness:
  "range_reduce \<lparr> w0 = 0x40008000, w1 = 0, w2 = 0, w3 = 0 \<rparr>
     = Reduced pos_zero 2 32 \<lparr> w0 = 0x3ffe8000, w1 = 0, w2 = 0, w3 = 0 \<rparr>
   \<and> 0 \<le> sint (32 - 26 :: 32 word) \<and> sint (32 - 26 :: 32 word) \<le> 91
   \<and> sint (32 - 26 :: 32 word) < int (length logtbl)
   \<and> logtbl_read (sint (32 - 26 :: 32 word)) = Some (logtbl ! nat (sint (32 - 26 :: 32 word)))"
proof -
  have h: "range_reduce \<lparr> w0 = 0x40008000, w1 = 0, w2 = 0, w3 = 0 \<rparr>
     = Reduced pos_zero 2 32 \<lparr> w0 = 0x3ffe8000, w1 = 0, w2 = 0, w3 = 0 \<rparr>"
    unfolding pos_zero_def by code_simp
  show ?thesis using h table_read_in_bounds [OF h] by blast
qed

text \<open>
  C6: for an input that is \<open>+0\<close> or \<open>-0\<close> (exponent and fraction bits all zero, either
  sign) the function returns the value of the expression \<open>-0.5 / ZERO\<close>, and that value is
  minus infinity.
\<close>

theorem logl_of_zero:
  assumes "is_zero x"
  shows "ieee754_logl x = Some (fdiv (fneg (decimal 5 1)) ZERO)
         \<and> fdiv (fneg (decimal 5 1)) ZERO = infinity True"
proof -
  have "special_case x = Some (fdiv (fneg (decimal 5 1)) ZERO)"
    using assms by (simp only: special_case_eq if_True)
  then have "ieee754_logl x = Some (fdiv (fneg (decimal 5 1)) ZERO)"
    by (simp only: ieee754_logl_def option.case)
  moreover have "fdiv (fneg (decimal 5 1)) ZERO = infinity True"
    by (simp only: ZERO_bits minus_half_over_zero neg_infinity_is)
  ultimately show ?thesis by (rule conjI)
qed

theorem logl_of_zero_witness:
  "is_zero \<lparr> w0 = 0x80000000, w1 = 0, w2 = 0, w3 = 0 \<rparr>
   \<and> ieee754_logl \<lparr> w0 = 0x80000000, w1 = 0, w2 = 0, w3 = 0 \<rparr>
       = Some (fdiv (fneg (decimal 5 1)) ZERO)
   \<and> fdiv (fneg (decimal 5 1)) ZERO = infinity True"
proof -
  have h: "is_zero \<lparr> w0 = 0x80000000, w1 = 0, w2 = 0, w3 = 0 \<rparr>"
    by code_simp
  show ?thesis using h logl_of_zero [OF h] by blast
qed

text \<open>
  C7: for an input with the sign bit set and a nonzero magnitude (negative finite values,
  minus infinity, NaNs with the sign bit set) the function returns the value of the
  expression \<open>(x - x) / ZERO\<close>, and that value is a NaN.
\<close>

theorem logl_of_negative:
  assumes "sign_bit x" "\<not> is_zero x"
  shows "ieee754_logl x = Some (fdiv (fsub x x) ZERO) \<and> is_nan (fdiv (fsub x x) ZERO)"
  using assms by (simp add: ieee754_logl_def special_case_eq negative_branch_nan)

theorem logl_of_negative_witness:
  "sign_bit \<lparr> w0 = 0xbfff0000, w1 = 0, w2 = 0, w3 = 0 \<rparr>
   \<and> \<not> is_zero \<lparr> w0 = 0xbfff0000, w1 = 0, w2 = 0, w3 = 0 \<rparr>
   \<and> ieee754_logl \<lparr> w0 = 0xbfff0000, w1 = 0, w2 = 0, w3 = 0 \<rparr>
       = Some (fdiv (fsub \<lparr> w0 = 0xbfff0000, w1 = 0, w2 = 0, w3 = 0 \<rparr>
                          \<lparr> w0 = 0xbfff0000, w1 = 0, w2 = 0, w3 = 0 \<rparr>) ZERO)
   \<and> is_nan (fdiv (fsub \<lparr> w0 = 0xbfff0000, w1 = 0, w2 = 0, w3 = 0 \<rparr>
                          \<lparr> w0 = 0xbfff0000, w1 = 0, w2 = 0, w3 = 0 \<rparr>) ZERO)"
proof -
  have h1: "sign_bit \<lparr> w0 = 0xbfff0000, w1 = 0, w2 = 0, w3 = 0 \<rparr>"
    by code_simp
  have h2: "\<not> is_zero \<lparr> w0 = 0xbfff0000, w1 = 0, w2 = 0, w3 = 0 \<rparr>"
    by code_simp
  show ?thesis using h1 h2 logl_of_negative [OF h1 h2] by blast
qed

text \<open>
  C8: for a NaN input, with any payload and either sign, the function returns the value of
  \<open>x + x\<close>: a NaN with the sign and the payload (the fraction bits below the quiet bit) of
  the input. A NaN with the sign bit set leaves through the branch \<open>(x - x) / ZERO\<close>, whose
  value is the same quiet NaN.
\<close>

theorem logl_of_nan:
  assumes "is_nan x"
  shows "ieee754_logl x = Some (fadd x x) \<and> is_nan (fadd x x)
         \<and> sign_bit (fadd x x) = sign_bit x
         \<and> fraction (fadd x x) mod 2 ^ 111 = fraction x mod 2 ^ 111"
proof -
  have e: "biased_exp x = 0x7fff" using assms by (simp add: is_nan_def)
  have "ieee754_logl x = Some (quiet x)"
    using assms e
    by (simp add: ieee754_logl_def special_case_eq is_nan_not_zero negative_branch_of_nan fadd_nan)
  moreover have "fadd x x = quiet x" using assms by (rule fadd_nan)
  ultimately show ?thesis
    using assms by (simp only: is_nan_quiet quiet_fields(1) quiet_payload simp_thms)
qed

theorem logl_of_nan_witness:
  "is_nan \<lparr> w0 = 0x7fff0000, w1 = 0, w2 = 0, w3 = 1 \<rparr>
   \<and> ieee754_logl \<lparr> w0 = 0x7fff0000, w1 = 0, w2 = 0, w3 = 1 \<rparr>
       = Some (fadd \<lparr> w0 = 0x7fff0000, w1 = 0, w2 = 0, w3 = 1 \<rparr>
                    \<lparr> w0 = 0x7fff0000, w1 = 0, w2 = 0, w3 = 1 \<rparr>)"
proof -
  have h: "is_nan \<lparr> w0 = 0x7fff0000, w1 = 0, w2 = 0, w3 = 1 \<rparr>"
    by code_simp
  show ?thesis using h logl_of_nan [OF h] by blast
qed

text \<open>
  C5: for the input exactly 1.0 the function returns exactly \<open>+0\<close>, the value of the
  integer constant 0, whose bits are all zero.
\<close>

theorem logl_of_one:
  "valof (float_of_int 1) = 1 \<and> ieee754_logl (float_of_int 1) = Some (float_of_int 0)
   \<and> float_of_int 0 = \<lparr> w0 = 0, w1 = 0, w2 = 0, w3 = 0 \<rparr>"
proof -
  have "valof one = 1" unfolding one_def by code_simp
  moreover have "ieee754_logl one = Some pos_zero" unfolding one_def pos_zero_def by code_simp
  ultimately show ?thesis by (simp only: float_of_int_1 float_of_int_0 pos_zero_def simp_thms)
qed

text \<open>
  C1: for a positive finite nonzero input other than 1, range reduction leaves \<open>z\<close>, \<open>e\<close>,
  \<open>k\<close> and \<open>t\<close>, and the returned value is the result of the specification's ordered
  sequence of operations on them, with \<open>logtbl[k - 26]\<close> as the table entry.
\<close>

theorem accumulation_order:
  assumes "\<not> sign_bit x" "is_finite x" "\<not> is_zero x" "\<not> feq x (float_of_int 1)"
  shows "\<exists>z e k t. range_reduce x = Reduced z e k t
           \<and> ieee754_logl x = Some (spec_accumulate z e (logtbl ! nat (sint (k - 26))) t)"
proof -
  obtain z e k t where r: "range_reduce x = Reduced z e k t"
    using range_reduce_Reduced [OF assms(4)] by blast
  have i: "0 \<le> sint (k - 26)" "sint (k - 26) < 92"
    using range_reduce_index [OF r] by simp_all
  have "ieee754_logl x = accumulate z e k t"
    by (simp add: ieee754_logl_def special_case_None [OF assms(1,2,3)] r)
  then show ?thesis using r accumulate_spec [OF i] by simp
qed

theorem accumulation_order_witness:
  "\<not> sign_bit \<lparr> w0 = 0x40008000, w1 = 0, w2 = 0, w3 = 0 \<rparr>
   \<and> is_finite \<lparr> w0 = 0x40008000, w1 = 0, w2 = 0, w3 = 0 \<rparr>
   \<and> \<not> is_zero \<lparr> w0 = 0x40008000, w1 = 0, w2 = 0, w3 = 0 \<rparr>
   \<and> \<not> feq \<lparr> w0 = 0x40008000, w1 = 0, w2 = 0, w3 = 0 \<rparr> (float_of_int 1)
   \<and> ieee754_logl \<lparr> w0 = 0x40008000, w1 = 0, w2 = 0, w3 = 0 \<rparr>
         = Some (spec_accumulate pos_zero 2 (logtbl ! 6) \<lparr> w0 = 0x3ffe8000, w1 = 0, w2 = 0, w3 = 0 \<rparr>)"
proof -
  have h1: "\<not> sign_bit \<lparr> w0 = 0x40008000, w1 = 0, w2 = 0, w3 = 0 \<rparr>" by code_simp
  have h2: "is_finite \<lparr> w0 = 0x40008000, w1 = 0, w2 = 0, w3 = 0 \<rparr>" by code_simp
  have h3: "\<not> is_zero \<lparr> w0 = 0x40008000, w1 = 0, w2 = 0, w3 = 0 \<rparr>" by code_simp
  have h4: "\<not> feq \<lparr> w0 = 0x40008000, w1 = 0, w2 = 0, w3 = 0 \<rparr> (float_of_int 1)" by code_simp
  have s: "nat (sint (32 - 26 :: 32 word)) = 6" by simp
  show ?thesis
    using h1 h2 h3 h4 accumulation_order [OF h1 h2 h3 h4] s by (auto simp: three_reduced)
qed

text \<open>
  C4, as stated, for every input in the band \<open>[0.9921875, 1.0078125]\<close>: it fails at exactly
  1.0, which lies in the band, where the function returns 0 before \<open>z\<close>, \<open>k\<close>, \<open>t\<close> and \<open>e\<close>
  are assigned.
\<close>

theorem band_override_counterexample:
  "fle (float_of_int 1) (decimal 10078125 7) \<and> fge (float_of_int 1) (decimal 9921875 7)
   \<and> range_reduce (float_of_int 1) = Return (float_of_int 0)
   \<and> range_reduce (float_of_int 1)
       \<noteq> Reduced (fsub (float_of_int 1) (float_of_int 1)) 0 64 (float_of_int 1)"
proof -
  have 1: "fle one (decimal 10078125 7)" unfolding band_hi one_def by code_simp
  have 2: "fge one (decimal 9921875 7)" unfolding band_lo one_def by code_simp
  have 3: "range_reduce one = Return pos_zero" unfolding one_def pos_zero_def by code_simp
  show ?thesis using 1 2 3 by (simp add: float_of_int_1 float_of_int_0)
qed

text \<open>
  C4, amended: for every input in the band \<open>[0.9921875, 1.0078125]\<close> other than exactly 1.0
  the general reduction is overridden: \<open>z = x - 1\<close>, \<open>e = 0\<close>, \<open>k = 64\<close> (whose table entry
  \<open>logtbl[38]\<close> is the zero anchor) and \<open>t = 1\<close>; such an input passes the special-case
  tests.
\<close>

theorem band_override:
  assumes "fle x (decimal 10078125 7)" "fge x (decimal 9921875 7)" "\<not> feq x (float_of_int 1)"
  shows "special_case x = None
         \<and> range_reduce x = Reduced (fsub x (float_of_int 1)) 0 64 (float_of_int 1)
         \<and> logtbl_read (sint (64 - 26 :: 32 word)) = Some ZERO
         \<and> valof (float_of_int 1) = 1"
proof -
  obtain u e0 where f: "frexpl x = (u, e0)" by (cases "frexpl x")
  have 1: "special_case x = None"
    using band_positive_finite [OF assms(1,2)] by (simp add: special_case_None)
  have 2: "range_reduce x = Reduced (fsub x (float_of_int 1)) 0 64 (float_of_int 1)"
    using assms by (simp add: range_reduce_def f Let_def)
  have 3: "logtbl_read (sint (64 - 26 :: 32 word)) = Some ZERO"
    by (simp add: logtbl_read_def ZERO_def)
  have 4: "valof (float_of_int 1) = 1"
    unfolding float_of_int_1 one_def by code_simp
  show ?thesis using 1 2 3 4 by blast
qed

theorem band_override_witness:
  "fle \<lparr> w0 = 0x3fff0100, w1 = 0, w2 = 0, w3 = 0 \<rparr> (decimal 10078125 7)
   \<and> fge \<lparr> w0 = 0x3fff0100, w1 = 0, w2 = 0, w3 = 0 \<rparr> (decimal 9921875 7)
   \<and> \<not> feq \<lparr> w0 = 0x3fff0100, w1 = 0, w2 = 0, w3 = 0 \<rparr> (float_of_int 1)
   \<and> range_reduce \<lparr> w0 = 0x3fff0100, w1 = 0, w2 = 0, w3 = 0 \<rparr>
       = Reduced (fsub \<lparr> w0 = 0x3fff0100, w1 = 0, w2 = 0, w3 = 0 \<rparr> (float_of_int 1)) 0 64
           (float_of_int 1)"
  using x_above_one band_override [OF x_above_one] by blast


text \<open>
  C10: for a finite nonzero input, \<open>__frexpl\<close> returns \<open>u\<close> with exponent field \<open>0x3ffe\<close>, so
  \<open>0.5 \<le> |u| < 1\<close>; on the fine tier the update \<open>w0 += 0x10000\<close> raises the exponent field
  to \<open>0x3fff\<close> and leaves the sign and the fraction as they are, which doubles the value, and
  with \<open>e -= 1\<close> the product \<open>2 ^ e * u\<close> is unchanged.
\<close>

theorem fine_tier_realignment:
  assumes "is_finite x" "\<not> is_zero x" "frexpl x = (u, e)"
    and "(w0 u AND 0xffff) OR 0x10000 < (0x16800 :: 32 word)"
  shows "biased_exp u = 0x3ffe \<and> 1 / 2 \<le> \<bar>valof u\<bar> \<and> \<bar>valof u\<bar> < 1
         \<and> rs_u (table_index u e) = u \<lparr> w0 := w0 u + 0x10000 \<rparr>
         \<and> rs_e (table_index u e) = e - 1
         \<and> sign_bit (rs_u (table_index u e)) = sign_bit u
         \<and> biased_exp (rs_u (table_index u e)) = 0x3fff
         \<and> fraction (rs_u (table_index u e)) = fraction u
         \<and> valof (rs_u (table_index u e)) = 2 * valof u
         \<and> valof (rs_u (table_index u e)) * 2 powi rs_e (table_index u e) = valof u * 2 powi e"
proof -
  have b: "biased_exp u = 0x3ffe" by (rule frexpl_exponent_field [OF assms(1,2,3)])
  note t = table_index_fine [OF assms(4), of e]
  note i = exponent_increment [OF b]
  have d: "valof (rs_u (table_index u e)) = 2 * valof u"
    by (simp only: t valof_doubled [OF b])
  have "valof (rs_u (table_index u e)) * 2 powi rs_e (table_index u e)
          = (2 * valof u) * 2 powi (e - 1)"
    by (simp only: d t(2))
  then have "valof (rs_u (table_index u e)) * 2 powi rs_e (table_index u e) = valof u * 2 powi e"
    by (simp only: realign_invariant)
  then show ?thesis
    using b valof_half_to_one [OF b] t i d by (simp only: simp_thms)
qed

theorem fine_tier_realignment_witness:
  "is_finite \<lparr> w0 = 0x3ffd5555, w1 = 0x55555555, w2 = 0x55555555, w3 = 0x55555555 \<rparr>
   \<and> \<not> is_zero \<lparr> w0 = 0x3ffd5555, w1 = 0x55555555, w2 = 0x55555555, w3 = 0x55555555 \<rparr>
   \<and> (w0 \<lparr> w0 = 0x3ffe5555, w1 = 0x55555555, w2 = 0x55555555, w3 = 0x55555555 \<rparr> AND 0xffff)
         OR 0x10000 < (0x16800 :: 32 word)
   \<and> valof (rs_u (table_index
          \<lparr> w0 = 0x3ffe5555, w1 = 0x55555555, w2 = 0x55555555, w3 = 0x55555555 \<rparr> (- 1)))
       = 2 * valof \<lparr> w0 = 0x3ffe5555, w1 = 0x55555555, w2 = 0x55555555, w3 = 0x55555555 \<rparr>"
proof -
  have h1: "is_finite \<lparr> w0 = 0x3ffd5555, w1 = 0x55555555, w2 = 0x55555555, w3 = 0x55555555 \<rparr>"
    by code_simp
  have h2: "\<not> is_zero \<lparr> w0 = 0x3ffd5555, w1 = 0x55555555, w2 = 0x55555555, w3 = 0x55555555 \<rparr>"
    by code_simp
  have h4: "(w0 \<lparr> w0 = 0x3ffe5555, w1 = 0x55555555, w2 = 0x55555555, w3 = 0x55555555 \<rparr> AND 0xffff)
         OR 0x10000 < (0x16800 :: 32 word)"
    by code_simp
  show ?thesis
    using h1 h2 h4 fine_tier_realignment [OF h1 h2 frexpl_third h4] by blast
qed

end
